theory Spec2Isabelle
  imports Main "HOL-Library.Multiset"
begin

section \<open>The page: document tree and browser tag queries\<close>

text \<open>
  An element is a node of the document tree; its handle (the JavaScript object reference)
  is the number \<open>nid\<close>. The tag name is the name under which the browser's tag queries
  find the element.
\<close>

datatype node = Node (nid: nat) (tagName: string) (childNodes: "node list")

fun descendants :: "node \<Rightarrow> node list" where
  "descendants (Node i t cs) = concat (map (\<lambda>c. c # descendants c) cs)"

definition find_node :: "nat \<Rightarrow> node \<Rightarrow> node option" where
  "find_node h n = find (\<lambda>m. nid m = h) (n # descendants n)"

text \<open>
  A descriptor of \<open>_tagInfos\<close>: \<open>{xmlns, localName, className}\<close>, the \<open>xmlns\<close> property
  being optional.
\<close>

record tagInfo =
  xmlns :: "string option"
  localName :: string
  className :: string

text \<open>
  The functions that the core hands to its collaborators: the caller's \<open>cb\<close> and the
  closure \<open>onTagDone\<close> that each invocation of \<open>parse\<close> creates (numbered by invocation).
\<close>

datatype callback = UserCb nat | OnTagDone nat

text \<open>Calls made on handler instances (instances are numbered in order of creation).\<close>

datatype call = Subscribe nat string callback | Process nat

text \<open>
  The state that outlives a call of \<open>parse\<close>: the registry \<open>FB.XFBML._tagInfos\<close>, the keys of
  \<open>FB.CLASSES\<close>, what \<open>FB.Dom.getBrowserType()\<close> and \<open>document.namespaces\<close> answer, the
  document with \<open>document.body\<close>, the \<open>_element\<close> property of every element, the
  instantiations \<open>new fn(dom)\<close> made so far (class name and element), the calls made on the
  instances, the continuations handed to \<open>FB.Loader.use\<close> that have not run yet (component
  name, then the \<open>dom\<close>, \<open>tagInfo\<close> and \<open>cb\<close> the closure \<open>processor\<close> holds), and the number
  of invocations of \<open>parse\<close>.
\<close>

record world =
  tagInfos :: "tagInfo list"
  classes :: "string list"
  browserType :: string
  namespaces :: "string list option"
  document :: node
  body :: nat
  elements :: "nat \<rightharpoonup> nat"
  instances :: "(string \<times> nat) list"
  calls :: "call list"
  pending :: "(string \<times> nat \<times> tagInfo \<times> callback) list"
  parses :: nat

text \<open>
  \<open>dom.getElementsByTagName(name)\<close>: the descendants of \<open>dom\<close> in document order whose tag
  name is \<open>name\<close>. \<open>dom.getElementsByTagNameNS(document.body.namespaceURI, name)\<close>: all
  elements of the page are taken to be in the namespace of the body, so the query selects
  by name as well. A handle that names no element of the document finds nothing.
\<close>

definition getElementsByTagName :: "world \<Rightarrow> nat \<Rightarrow> string \<Rightarrow> nat list" where
  "getElementsByTagName w el name =
     (case find_node el (document w) of
        None \<Rightarrow> []
      | Some n \<Rightarrow> map nid (filter (\<lambda>m. tagName m = name) (descendants n)))"

definition getElementsByTagNameNS :: "world \<Rightarrow> nat \<Rightarrow> string \<Rightarrow> nat list" where
  "getElementsByTagNameNS w el name = getElementsByTagName w el name"

definition getDomElements :: "world \<Rightarrow> nat \<Rightarrow> string \<Rightarrow> string \<Rightarrow> nat list" where
  "getDomElements w el ns lname =
     (let fullName = ns @ '':'' @ lname in
      if browserType w = ''mozilla'' then getElementsByTagNameNS w el fullName
      else if browserType w = ''ie'' then
        (case namespaces w of
           Some docNamespaces \<Rightarrow>
             if ns \<in> set docNamespaces then getElementsByTagName w el lname
             else getElementsByTagName w el fullName
         | None \<Rightarrow> getElementsByTagName w el fullName)
      else getElementsByTagName w el fullName)"

section \<open>The registry\<close>

definition registerTag :: "world \<Rightarrow> tagInfo \<Rightarrow> world" where
  "registerTag w ti = w\<lparr>tagInfos := tagInfos w @ [ti]\<rparr>"

text \<open>The base tags that \<open>_tagInfos\<close> holds when the file is loaded.\<close>

definition baseTagInfos :: "tagInfo list" where
  "baseTagInfos =
     [\<lparr>xmlns = None, localName = ''add-to-wishlist'', className = ''FB.XFBML.AddToWishList''\<rparr>,
      \<lparr>xmlns = None, localName = ''comments'', className = ''FB.XFBML.Comments''\<rparr>,
      \<lparr>xmlns = None, localName = ''fan'', className = ''FB.XFBML.Fan''\<rparr>,
      \<lparr>xmlns = None, localName = ''like'', className = ''FB.XFBML.Like''\<rparr>,
      \<lparr>xmlns = None, localName = ''live-stream'', className = ''FB.XFBML.LiveStream''\<rparr>,
      \<lparr>xmlns = None, localName = ''login-button'', className = ''FB.XFBML.LoginButton''\<rparr>,
      \<lparr>xmlns = None, localName = ''name'', className = ''FB.XFBML.Name''\<rparr>,
      \<lparr>xmlns = None, localName = ''profile-pic'', className = ''FB.XFBML.ProfilePic''\<rparr>,
      \<lparr>xmlns = None, localName = ''serverfbml'', className = ''FB.XFBML.ServerFbml''\<rparr>,
      \<lparr>xmlns = None, localName = ''share-button'', className = ''FB.XFBML.ShareButton''\<rparr>]"

text \<open>\<open>!tagInfo.xmlns\<close>: the property is missing or the empty string.\<close>

definition falsy :: "string option \<Rightarrow> bool" where
  "falsy s = (case s of None \<Rightarrow> True | Some v \<Rightarrow> v = [])"

definition defaultXmlns :: "tagInfo \<Rightarrow> tagInfo" where
  "defaultXmlns ti = (if falsy (xmlns ti) then ti\<lparr>xmlns := Some ''fb''\<rparr> else ti)"

text \<open>A property read inside a string concatenation: a missing one reads \<open>undefined\<close>.\<close>

definition str :: "string option \<Rightarrow> string" where
  "str s = (case s of None \<Rightarrow> ''undefined'' | Some v \<Rightarrow> v)"

section \<open>Binding a handler to an element\<close>

definition toLowerCase :: "string \<Rightarrow> string" where
  "toLowerCase s =
     map (\<lambda>c. case map_of (zip ''ABCDEFGHIJKLMNOPQRSTUVWXYZ'' ''abcdefghijklmnopqrstuvwxyz'') c of
                 Some l \<Rightarrow> l
               | None \<Rightarrow> c) s"

text \<open>
  The closure \<open>processor\<close>: instantiate the class named by \<open>tagInfo.className\<close> on the
  element, store the instance in \<open>dom._element\<close>, subscribe \<open>cb\<close> to its render event and
  call \<open>process()\<close>.
\<close>

definition processor :: "world \<Rightarrow> nat \<Rightarrow> tagInfo \<Rightarrow> callback \<Rightarrow> world" where
  "processor w el ti cb =
     (let element = length (instances w) in
      w\<lparr>instances := instances w @ [(className ti, el)],
        elements := (elements w)(el \<mapsto> element),
        calls := calls w @ [Subscribe element ''render'' cb, Process element]\<rparr>)"

definition processElement :: "world \<Rightarrow> nat \<Rightarrow> tagInfo \<Rightarrow> callback \<Rightarrow> world" where
  "processElement w el ti cb =
     (case elements w el of
        Some element \<Rightarrow>
          w\<lparr>calls := calls w @ [Subscribe element ''render'' cb, Process element]\<rparr>
      | None \<Rightarrow>
          if drop 3 (className ti) \<in> set (classes w) then processor w el ti cb
          else
            (let component = toLowerCase (className ti) in
             w\<lparr>pending := pending w @ [(component, el, ti, cb)]\<rparr>))"

text \<open>
  The component loader runs the \<open>k\<close>-th continuation it still holds (the loader decides
  when and in which order).
\<close>

definition loaded :: "nat \<Rightarrow> world \<Rightarrow> world" where
  "loaded k w =
     (if k < length (pending w) then
        (case pending w ! k of
           (component, el, ti, cb) \<Rightarrow>
             processor (w\<lparr>pending := take k (pending w) @ drop (Suc k) (pending w)\<rparr>) el ti cb)
      else w)"

section \<open>One run of parse\<close>

text \<open>
  What a run does to the rest of the page: it invokes the caller's callback and fires a
  global event. The diagnostics given to \<open>FB.log\<close> are kept apart.
\<close>

datatype effect = Invoke nat | Fire string

text \<open>
  The variables of one invocation: \<open>count\<close> (a JavaScript number, holding small integers
  only), the armed timer with its delay (\<open>None\<close> before \<open>setTimeout\<close> and after the timer
  has expired), the effects so far and the messages logged so far, oldest first.
\<close>

record run =
  count :: int
  timeout :: "nat option"
  effects :: "effect list"
  logged :: "string list"

definition renderTimeout :: nat where
  "renderTimeout = 30000"

definition digit :: "nat \<Rightarrow> char" where
  "digit d = ''0123456789'' ! d"

function show_nat :: "nat \<Rightarrow> string" where
  "show_nat n = (if n < 10 then [digit n] else show_nat (n div 10) @ [digit (n mod 10)])"
  by pat_completeness auto
termination
  by (relation "measure id") auto

declare show_nat.simps [simp del]

definition show_int :: "int \<Rightarrow> string" where
  "show_int i = (if i < 0 then ''-'' @ show_nat (nat (- i)) else show_nat (nat i))"

definition onTagDone :: "nat option \<Rightarrow> run \<Rightarrow> run" where
  "onTagDone cb r =
     (let r1 = r\<lparr>count := count r - 1\<rparr> in
      if count r1 = 0 then
        r1\<lparr>effects := effects r1 @ (case cb of Some f \<Rightarrow> [Invoke f] | None \<Rightarrow> [])
                        @ [Fire ''xfbml.render'']\<rparr>
      else r1)"

text \<open>
  The inner loop over the elements found for one descriptor. What the handler does inside
  \<open>_processElement\<close> is not code of the core: \<open>sync d\<close> is the number of times the
  continuation is invoked before \<open>_processElement\<close> returns for the element \<open>d\<close> (0 for a
  handler that completes later, 1 for one that completes at once).
\<close>

fun forDoms ::
  "(nat \<Rightarrow> nat) \<Rightarrow> nat option \<Rightarrow> callback \<Rightarrow> tagInfo \<Rightarrow> nat list \<Rightarrow> world \<times> run \<Rightarrow> world \<times> run"
where
  "forDoms sync cb k ti [] wr = wr"
| "forDoms sync cb k ti (d # ds) (w, r) =
     forDoms sync cb k ti ds
       (processElement w d ti k, (onTagDone cb ^^ sync d) (r\<lparr>count := count r + 1\<rparr>))"

text \<open>
  The loop over the descriptors of the registry, as read when the loop starts; \<open>i\<close> is the
  position of the descriptor, which is updated in place.
\<close>

fun forEachTag ::
  "(nat \<Rightarrow> nat) \<Rightarrow> nat option \<Rightarrow> callback \<Rightarrow> nat \<Rightarrow> nat \<Rightarrow> tagInfo list \<Rightarrow> world \<times> run
     \<Rightarrow> world \<times> run"
where
  "forEachTag sync cb k el i [] wr = wr"
| "forEachTag sync cb k el i (t # ts) (w, r) =
     (let ti = defaultXmlns t;
          w1 = w\<lparr>tagInfos := (tagInfos w)[i := ti]\<rparr>;
          xfbmlDoms = getDomElements w1 el (str (xmlns ti)) (localName ti)
      in forEachTag sync cb k el (Suc i) ts (forDoms sync cb k ti xfbmlDoms (w1, r)))"

definition root :: "world \<Rightarrow> nat option \<Rightarrow> nat" where
  "root w el = (case el of Some d \<Rightarrow> d | None \<Rightarrow> body w)"

text \<open>The state when the loop over the registry has ended, before the timer is set.\<close>

definition scan :: "(nat \<Rightarrow> nat) \<Rightarrow> world \<Rightarrow> nat option \<Rightarrow> nat option \<Rightarrow> world \<times> run" where
  "scan sync w el cb =
     forEachTag sync cb (OnTagDone (parses w)) (root w el) 0 (tagInfos w)
       (w\<lparr>parses := Suc (parses w)\<rparr>, \<lparr>count = 1, timeout = None, effects = [], logged = []\<rparr>)"

definition parse :: "(nat \<Rightarrow> nat) \<Rightarrow> world \<Rightarrow> nat option \<Rightarrow> nat option \<Rightarrow> world \<times> run" where
  "parse sync w el cb =
     (case scan sync w el cb of
        (w1, r1) \<Rightarrow> (w1, onTagDone cb (r1\<lparr>timeout := Some renderTimeout\<rparr>)))"

text \<open>The function given to \<open>setTimeout\<close>; the timer is one-shot.\<close>

definition onTimeout :: "run \<Rightarrow> run" where
  "onTimeout r =
     (case timeout r of
        None \<Rightarrow> r
      | Some ms \<Rightarrow>
          (let r1 = r\<lparr>timeout := None\<rparr> in
           if count r > 0 then
             r1\<lparr>logged := logged r1 @
                  [show_int (count r) @ '' XFBML tags failed to render in ''
                     @ show_nat renderTimeout @ ''ms.'']\<rparr>
           else r1))"

text \<open>
  What reaches a run after \<open>parse\<close> has returned: the render event of the handler of an
  element, which calls \<open>onTagDone\<close>, and the expiry of the timer.
\<close>

datatype event = Render nat | Expire

fun step :: "nat option \<Rightarrow> run \<Rightarrow> event \<Rightarrow> run" where
  "step cb r (Render d) = onTagDone cb r"
| "step cb r Expire = onTimeout r"

definition deliver :: "nat option \<Rightarrow> run \<Rightarrow> event list \<Rightarrow> run" where
  "deliver cb r evs = foldl (step cb) r evs"

section \<open>Setting markup\<close>

text \<open>
  \<open>dom.innerHTML = markup\<close>: the children of the element become the nodes that the
  browser's HTML parser \<open>html\<close> builds from the markup.
\<close>

fun setChildNodes :: "nat \<Rightarrow> node list \<Rightarrow> node \<Rightarrow> node" where
  "setChildNodes h ks (Node i t cs) =
     (if i = h then Node i t ks else Node i t (map (setChildNodes h ks) cs))"

definition setInnerHTML :: "(string \<Rightarrow> node list) \<Rightarrow> world \<Rightarrow> nat \<Rightarrow> string \<Rightarrow> world" where
  "setInnerHTML html w el markup = w\<lparr>document := setChildNodes el (html markup) (document w)\<rparr>"

definition set_markup ::
  "(string \<Rightarrow> node list) \<Rightarrow> (nat \<Rightarrow> nat) \<Rightarrow> world \<Rightarrow> nat \<Rightarrow> string \<Rightarrow> nat option \<Rightarrow> world \<times> run"
where
  "set_markup html sync w el markup cb = parse sync (setInnerHTML html w el markup) (Some el) cb"

section \<open>Notions used to state the properties\<close>

text \<open>The completion actions of a run: the caller's callback if there is one, then the event.\<close>

definition notify :: "nat option \<Rightarrow> effect list" where
  "notify cb = (case cb of Some f \<Rightarrow> [Invoke f] | None \<Rightarrow> []) @ [Fire ''xfbml.render'']"

text \<open>
  The elements that the two loops of \<open>parse\<close> visit below the element \<open>el\<close>, in the order of
  the visits: for each descriptor of the registry, what \<open>_getDomElements\<close> finds for it.
\<close>

definition matched :: "world \<Rightarrow> nat \<Rightarrow> nat list" where
  "matched w el =
     concat (map (\<lambda>t. getDomElements w el (str (xmlns (defaultXmlns t))) (localName t))
                 (tagInfos w))"

text \<open>
  What one pass of the body of the inner loop does to the variables of the run: \<open>count++\<close>,
  then the completions that arrive before \<open>_processElement\<close> returns.
\<close>

definition visit :: "(nat \<Rightarrow> nat) \<Rightarrow> nat option \<Rightarrow> run \<Rightarrow> nat \<Rightarrow> run" where
  "visit sync cb r d = (onTagDone cb ^^ sync d) (r\<lparr>count := count r + 1\<rparr>)"

text \<open>The visited elements whose handler has not completed when \<open>_processElement\<close> returns.\<close>

definition outstanding :: "(nat \<Rightarrow> nat) \<Rightarrow> world \<Rightarrow> nat \<Rightarrow> nat list" where
  "outstanding sync w el = filter (\<lambda>d. sync d = 0) (matched w el)"

text \<open>The elements below the element \<open>el\<close> in the document, in document order.\<close>

definition below :: "world \<Rightarrow> nat \<Rightarrow> nat list" where
  "below w el =
     (case find_node el (document w) of None \<Rightarrow> [] | Some n \<Rightarrow> map nid (descendants n))"

section \<open>Example pages\<close>

definition likeTag :: tagInfo where
  "likeTag = \<lparr>xmlns = None, localName = ''like'', className = ''FB.XFBML.Like''\<rparr>"

text \<open>
  A page with two \<open>fb:like\<close> elements and one unrelated element in the body; the registry
  holds the descriptor of \<open>fb:like\<close>, whose class is loaded.
\<close>

definition likePage :: world where
  "likePage =
     \<lparr>tagInfos = [likeTag], classes = [''XFBML.Like''], browserType = ''safari'',
      namespaces = None,
      document = Node 0 ''html'' [Node 1 ''head'' [],
                   Node 2 ''body'' [Node 3 ''fb:like'' [], Node 4 ''div'' [], Node 5 ''fb:like'' []]],
      body = 2, elements = Map.empty, instances = [], calls = [], pending = [], parses = 0\<rparr>"

text \<open>The same page before the class of \<open>fb:like\<close> has been loaded.\<close>

definition lazyPage :: world where
  "lazyPage = likePage\<lparr>classes := []\<rparr>"

text \<open>A page with an \<open>fb:like\<close> element in the head and one in the body.\<close>

definition headPage :: world where
  "headPage =
     likePage\<lparr>document := Node 0 ''html'' [Node 1 ''head'' [Node 6 ''fb:like'' []],
                   Node 2 ''body'' [Node 3 ''fb:like'' []]]\<rparr>"

text \<open>A page without any element of a registered tag.\<close>

definition plainPage :: world where
  "plainPage =
     likePage\<lparr>document := Node 0 ''html'' [Node 1 ''head'' [],
                   Node 2 ''body'' [Node 3 ''div'' [Node 4 ''span'' []]]]\<rparr>"

text \<open>Handler environments: every handler completes after \<open>parse\<close> has returned.\<close>

definition later :: "nat \<Rightarrow> nat" where
  "later d = 0"

text \<open>The handler of element 3 completes at once, the others later.\<close>

definition firstAtOnce :: "nat \<Rightarrow> nat" where
  "firstAtOnce d = (if d = 3 then 1 else 0)"

text \<open>
  A handler environment that breaks the contract of the render event: the handler of
  element 3 signals completion twice before \<open>_processElement\<close> returns, the others once.
\<close>

definition twiceAtOnce :: "nat \<Rightarrow> nat" where
  "twiceAtOnce d = (if d = 3 then 2 else 1)"

text \<open>
  Another one: the handler of element 3 signals completion twice before
  \<open>_processElement\<close> returns, the others never complete.
\<close>

definition twiceAndNever :: "nat \<Rightarrow> nat" where
  "twiceAndNever d = (if d = 3 then 2 else 0)"

section \<open>The run of the counter\<close>

lemma onTagDone_count: "count (onTagDone cb r) = count r - 1"
  by (simp add: onTagDone_def Let_def)

lemma onTagDone_timeout: "timeout (onTagDone cb r) = timeout r"
  by (simp add: onTagDone_def Let_def)

lemma onTagDone_logged: "logged (onTagDone cb r) = logged r"
  by (simp add: onTagDone_def Let_def)

lemma onTagDone_effects:
  "effects (onTagDone cb r) = (if count r = 1 then effects r @ notify cb else effects r)"
  by (simp add: onTagDone_def Let_def notify_def)

lemma processElement_frame:
  "tagInfos (processElement w el ti cb) = tagInfos w"
  "document (processElement w el ti cb) = document w"
  "browserType (processElement w el ti cb) = browserType w"
  "namespaces (processElement w el ti cb) = namespaces w"
  "body (processElement w el ti cb) = body w"
  "classes (processElement w el ti cb) = classes w"
  "parses (processElement w el ti cb) = parses w"
  by (simp_all add: processElement_def processor_def Let_def split: option.split)

lemma getDomElements_cong:
  "document w' = document w \<Longrightarrow> browserType w' = browserType w \<Longrightarrow> namespaces w' = namespaces w
   \<Longrightarrow> getDomElements w' el ns ln = getDomElements w el ns ln"
proof -
  assume d: "document w' = document w" and b: "browserType w' = browserType w"
    and n: "namespaces w' = namespaces w"
  have q: "\<And>name. getElementsByTagName w' el name = getElementsByTagName w el name"
    by (simp add: getElementsByTagName_def d)
  show ?thesis
    unfolding getDomElements_def getElementsByTagNameNS_def b n q ..
qed

lemma forDoms_run:
  "snd (forDoms sync cb k ti ds (w, r)) =
     foldl (\<lambda>r d. (onTagDone cb ^^ sync d) (r\<lparr>count := count r + 1\<rparr>)) r ds"
  by (induction ds arbitrary: w r) simp_all

lemma forDoms_frame:
  "tagInfos (fst (forDoms sync cb k ti ds (w, r))) = tagInfos w \<and>
   document (fst (forDoms sync cb k ti ds (w, r))) = document w \<and>
   browserType (fst (forDoms sync cb k ti ds (w, r))) = browserType w \<and>
   namespaces (fst (forDoms sync cb k ti ds (w, r))) = namespaces w \<and>
   body (fst (forDoms sync cb k ti ds (w, r))) = body w \<and>
   classes (fst (forDoms sync cb k ti ds (w, r))) = classes w \<and>
   parses (fst (forDoms sync cb k ti ds (w, r))) = parses w"
  by (induction ds arbitrary: w r) (simp_all add: processElement_frame)

lemma forEachTag_run:
  "snd (forEachTag sync cb k el i ts (w, r)) =
     foldl (\<lambda>r d. (onTagDone cb ^^ sync d) (r\<lparr>count := count r + 1\<rparr>)) r
       (concat (map (\<lambda>t. getDomElements w el (str (xmlns (defaultXmlns t))) (localName t)) ts))"
proof (induction ts arbitrary: i w r)
  case Nil
  show ?case by simp
next
  case (Cons t ts)
  let ?ti = "defaultXmlns t"
  let ?w1 = "w\<lparr>tagInfos := (tagInfos w)[i := ?ti]\<rparr>"
  let ?ds = "getDomElements ?w1 el (str (xmlns ?ti)) (localName ?ti)"
  let ?wr = "forDoms sync cb k ?ti ?ds (?w1, r)"
  have same: "\<And>ns ln. getDomElements (fst ?wr) el ns ln = getDomElements w el ns ln"
    by (rule getDomElements_cong) (simp_all add: forDoms_frame)
  have same1: "\<And>ns ln. getDomElements ?w1 el ns ln = getDomElements w el ns ln"
    by (rule getDomElements_cong) simp_all
  have ln: "localName ?ti = localName t"
    by (simp add: defaultXmlns_def)
  have "snd (forEachTag sync cb k el i (t # ts) (w, r)) =
        snd (forEachTag sync cb k el (Suc i) ts (fst ?wr, snd ?wr))"
    by (simp add: Let_def)
  also have "\<dots> = foldl (\<lambda>r d. (onTagDone cb ^^ sync d) (r\<lparr>count := count r + 1\<rparr>)) (snd ?wr)
       (concat (map (\<lambda>t. getDomElements w el (str (xmlns (defaultXmlns t))) (localName t)) ts))"
    by (simp only: Cons.IH same)
  finally show ?case
    by (simp add: forDoms_run same1 ln)
qed

lemma scan_run:
  "snd (scan sync w el cb) =
     foldl (\<lambda>r d. (onTagDone cb ^^ sync d) (r\<lparr>count := count r + 1\<rparr>))
       \<lparr>count = 1, timeout = None, effects = [], logged = []\<rparr> (matched w (root w el))"
proof -
  have "\<And>el ns ln. getDomElements (w\<lparr>parses := Suc (parses w)\<rparr>) el ns ln = getDomElements w el ns ln"
    by (rule getDomElements_cong) simp_all
  then show ?thesis
    by (simp add: scan_def forEachTag_run matched_def)
qed

lemma bind_contract:
  assumes "sync d \<le> 1" and "1 \<le> count r"
  shows "(onTagDone cb ^^ sync d) (r\<lparr>count := count r + 1\<rparr>) =
         r\<lparr>count := count r + (if sync d = 0 then 1 else 0)\<rparr>"
proof (cases "sync d = 0")
  case True
  then show ?thesis by simp
next
  case False
  with assms(1) have "sync d = Suc 0" by simp
  with assms(2) show ?thesis
    by (simp add: onTagDone_def Let_def)
qed

lemma binds_contract:
  assumes "\<forall>d. sync d \<le> 1"
  shows "1 \<le> count r \<Longrightarrow>
     foldl (\<lambda>r d. (onTagDone cb ^^ sync d) (r\<lparr>count := count r + 1\<rparr>)) r ds =
     r\<lparr>count := count r + int (length (filter (\<lambda>d. sync d = 0) ds))\<rparr>"
proof (induction ds arbitrary: r)
  case Nil
  show ?case by simp
next
  case (Cons d ds)
  from assms have d: "sync d \<le> 1" by simp
  have b: "(onTagDone cb ^^ sync d) (r\<lparr>count := count r + 1\<rparr>) =
         r\<lparr>count := count r + (if sync d = 0 then 1 else 0)\<rparr>"
    using d Cons.prems by (rule bind_contract)
  have "1 \<le> count (r\<lparr>count := count r + (if sync d = 0 then 1 else 0)\<rparr>)"
    using Cons.prems by simp
  from Cons.IH [OF this] show ?case
    by (simp add: b)
qed

lemma scan_contract:
  assumes "\<forall>d. sync d \<le> 1"
  shows "snd (scan sync w el cb) =
     \<lparr>count = 1 + int (length (outstanding sync w (root w el))), timeout = None,
      effects = [], logged = []\<rparr>"
  by (simp add: scan_run binds_contract [OF assms] outstanding_def)

lemma parse_contract:
  assumes "\<forall>d. sync d \<le> 1"
  shows "snd (parse sync w el cb) =
     \<lparr>count = int (length (outstanding sync w (root w el))), timeout = Some renderTimeout,
      effects = (if outstanding sync w (root w el) = [] then notify cb else []), logged = []\<rparr>"
proof -
  obtain w1 r1 where s: "scan sync w el cb = (w1, r1)" by (cases "scan sync w el cb")
  with scan_contract [OF assms, of w el cb]
  have r1: "r1 = \<lparr>count = 1 + int (length (outstanding sync w (root w el))), timeout = None,
      effects = [], logged = []\<rparr>" by simp
  show ?thesis
    by (simp add: parse_def s r1 onTagDone_def Let_def notify_def)
qed

lemma onTimeout_count: "count (onTimeout r) = count r"
  by (simp add: onTimeout_def Let_def split: option.split)

lemma onTimeout_effects: "effects (onTimeout r) = effects r"
  by (simp add: onTimeout_def Let_def split: option.split)

lemma deliver_Nil: "deliver cb r [] = r"
  by (simp add: deliver_def)

lemma deliver_Cons: "deliver cb r (e # evs) = deliver cb (step cb r e) evs"
  by (simp add: deliver_def)

lemma deliver_append: "deliver cb r (xs @ ys) = deliver cb (deliver cb r xs) ys"
  by (simp add: deliver_def)

lemma step_count: "count (step cb r e) = count r - (if e = Expire then 0 else 1)"
  by (cases e) (simp_all add: onTagDone_count onTimeout_count)

lemma deliver_count:
  "count (deliver cb r evs) = count r - int (length (filter (\<lambda>e. e \<noteq> Expire) evs))"
  by (induction evs arbitrary: r) (simp_all add: deliver_Nil deliver_Cons step_count)

lemma step_effects:
  "effects r = (if count r \<le> 0 then notify cb else []) \<Longrightarrow>
   effects (step cb r e) = (if count (step cb r e) \<le> 0 then notify cb else [])"
  by (cases e) (simp_all add: onTagDone_effects onTagDone_count onTimeout_count onTimeout_effects)

lemma deliver_effects:
  "effects r = (if count r \<le> 0 then notify cb else []) \<Longrightarrow>
   effects (deliver cb r evs) = (if count (deliver cb r evs) \<le> 0 then notify cb else [])"
  by (induction evs arbitrary: r) (simp_all add: deliver_Nil deliver_Cons step_effects)

lemma parse_effects:
  assumes "\<forall>d. sync d \<le> 1"
  shows "effects (snd (parse sync w el cb)) =
         (if count (snd (parse sync w el cb)) \<le> 0 then notify cb else [])"
  by (simp add: parse_contract [OF assms])


lemmas page_defs = likePage_def lazyPage_def headPage_def plainPage_def likeTag_def
  later_def firstAtOnce_def twiceAtOnce_def twiceAndNever_def

lemmas query_defs = matched_def outstanding_def root_def defaultXmlns_def falsy_def str_def
  getDomElements_def getElementsByTagNameNS_def getElementsByTagName_def find_node_def


lemma onTimeout_done:
  "count r \<le> 0 \<Longrightarrow> logged (onTimeout r) = logged r"
  by (simp add: onTimeout_def Let_def split: option.split)


lemma deliver_renders:
  "Expire \<notin> set evs \<Longrightarrow>
   logged (deliver cb r evs) = logged r \<and> timeout (deliver cb r evs) = timeout r"
proof (induction evs arbitrary: r)
  case Nil
  show ?case by (simp add: deliver_Nil)
next
  case (Cons e evs)
  then obtain d where e: "e = Render d" by (cases e) auto
  from Cons show ?case
    by (simp add: deliver_Cons e onTagDone_logged onTagDone_timeout)
qed


lemma renders_of_mset:
  assumes "mset evs = mset (map Render ds)"
  shows "Expire \<notin> set evs" and "length evs = length ds"
    and "filter (\<lambda>e. e \<noteq> Expire) evs = evs"
proof -
  from assms have "set evs = set (map Render ds)" by (rule mset_eq_setD)
  then show a: "Expire \<notin> set evs" by auto
  from assms have "size (mset evs) = size (mset (map Render ds))" by simp
  then show "length evs = length ds" by simp
  from a show "filter (\<lambda>e. e \<noteq> Expire) evs = evs"
    by (auto simp add: filter_id_conv)
qed

lemmas run_defs = parse_def scan_def processElement_def processor_def onTagDone_def
  onTimeout_def deliver_def loaded_def toLowerCase_def show_int_def show_nat.simps digit_def
  renderTimeout_def Let_def

lemma funpow_two: "(f ^^ 2) x = f (f x)"
  by (simp add: numeral_2_eq_2)

lemma visits_contract:
  assumes "\<forall>d. sync d \<le> 1"
  shows "foldl (visit sync cb) \<lparr>count = 1, timeout = None, effects = [], logged = []\<rparr> ds =
         \<lparr>count = 1 + int (length (filter (\<lambda>d. sync d = 0) ds)), timeout = None,
          effects = [], logged = []\<rparr>"
proof -
  have "visit sync cb = (\<lambda>r d. (onTagDone cb ^^ sync d) (r\<lparr>count := count r + 1\<rparr>))"
    by (intro ext) (simp add: visit_def)
  then show ?thesis
    by (simp add: binds_contract [OF assms])
qed

lemma forEachTag_frame:
  "document (fst (forEachTag sync cb k el i ts (w, r))) = document w \<and>
   browserType (fst (forEachTag sync cb k el i ts (w, r))) = browserType w \<and>
   namespaces (fst (forEachTag sync cb k el i ts (w, r))) = namespaces w \<and>
   body (fst (forEachTag sync cb k el i ts (w, r))) = body w \<and>
   classes (fst (forEachTag sync cb k el i ts (w, r))) = classes w \<and>
   parses (fst (forEachTag sync cb k el i ts (w, r))) = parses w"
proof (induction ts arbitrary: i w r)
  case Nil
  show ?case by simp
next
  case (Cons t ts)
  let ?ti = "defaultXmlns t"
  let ?w1 = "w\<lparr>tagInfos := (tagInfos w)[i := ?ti]\<rparr>"
  let ?wr = "forDoms sync cb k ?ti (getDomElements ?w1 el (str (xmlns ?ti)) (localName ?ti)) (?w1, r)"
  have "forEachTag sync cb k el i (t # ts) (w, r) =
        forEachTag sync cb k el (Suc i) ts (fst ?wr, snd ?wr)"
    by (simp add: Let_def)
  then show ?case
    by (simp only: Cons.IH forDoms_frame) simp
qed

lemma forEachTag_tagInfos:
  "i + length ts \<le> length (tagInfos w) \<Longrightarrow>
   tagInfos (fst (forEachTag sync cb k el i ts (w, r))) =
     take i (tagInfos w) @ map defaultXmlns ts @ drop (i + length ts) (tagInfos w)"
proof (induction ts arbitrary: i w r)
  case Nil
  then show ?case by simp
next
  case (Cons t ts)
  let ?ti = "defaultXmlns t"
  let ?w1 = "w\<lparr>tagInfos := (tagInfos w)[i := ?ti]\<rparr>"
  let ?wr = "forDoms sync cb k ?ti (getDomElements ?w1 el (str (xmlns ?ti)) (localName ?ti)) (?w1, r)"
  from Cons.prems have i: "i < length (tagInfos w)" by simp
  have step: "forEachTag sync cb k el i (t # ts) (w, r) =
        forEachTag sync cb k el (Suc i) ts (fst ?wr, snd ?wr)"
    by (simp add: Let_def)
  have l: "tagInfos (fst ?wr) = (tagInfos w)[i := ?ti]"
    by (simp add: forDoms_frame)
  have "Suc i + length ts \<le> length (tagInfos (fst ?wr))"
    using Cons.prems by (simp add: l)
  from Cons.IH [OF this, of "snd ?wr"]
  have "tagInfos (fst (forEachTag sync cb k el i (t # ts) (w, r))) =
        take (Suc i) ((tagInfos w)[i := ?ti]) @ map defaultXmlns ts
          @ drop (Suc i + length ts) ((tagInfos w)[i := ?ti])"
    by (simp only: step l)
  also have "take (Suc i) ((tagInfos w)[i := ?ti]) = take i (tagInfos w) @ [?ti]"
    using i by (simp add: take_Suc_conv_app_nth)
  also have "drop (Suc i + length ts) ((tagInfos w)[i := ?ti]) = drop (Suc i + length ts) (tagInfos w)"
    by simp
  finally show ?case by simp
qed

lemma scan_tagInfos: "tagInfos (fst (scan sync w el cb)) = map defaultXmlns (tagInfos w)"
  using forEachTag_tagInfos [of 0 "tagInfos w" "w\<lparr>parses := Suc (parses w)\<rparr>"]
  by (simp add: scan_def)

lemma scan_document: "document (fst (scan sync w el cb)) = document w"
  by (simp add: scan_def forEachTag_frame)

lemma parse_world: "fst (parse sync w el cb) = fst (scan sync w el cb)"
  by (cases "scan sync w el cb") (simp add: parse_def)

lemma find_append_option:
  "find P (xs @ ys) = (case find P xs of None \<Rightarrow> find P ys | Some x \<Rightarrow> Some x)"
  by (induction xs) simp_all

lemma find_concat_map:
  assumes "\<And>x. x \<in> set xs \<Longrightarrow> find P (f (s x)) = map_option g (find P (f x))"
  shows "find P (concat (map f (map s xs))) = map_option g (find P (concat (map f xs)))"
  using assms
proof (induction xs)
  case Nil
  show ?case by simp
next
  case (Cons x xs)
  have x: "find P (f (s x)) = map_option g (find P (f x))"
    by (rule Cons.prems) simp
  have r: "find P (concat (map f (map s xs))) = map_option g (find P (concat (map f xs)))"
    by (rule Cons.IH) (simp add: Cons.prems)
  show ?case
    by (simp add: find_append_option x r del: map_map split: option.split)
qed

lemma find_subtree_replaced:
  "find (\<lambda>m. nid m = h) (setChildNodes h ks t # descendants (setChildNodes h ks t)) =
   map_option (\<lambda>n. Node h (tagName n) ks) (find (\<lambda>m. nid m = h) (t # descendants t))"
proof (induction t)
  case (Node i tg cs)
  show ?case
  proof (cases "i = h")
    case True
    then show ?thesis by simp
  next
    case False
    have "find (\<lambda>m. nid m = h) (concat (map (\<lambda>c. c # descendants c) (map (setChildNodes h ks) cs))) =
          map_option (\<lambda>n. Node h (tagName n) ks)
            (find (\<lambda>m. nid m = h) (concat (map (\<lambda>c. c # descendants c) cs)))"
      by (rule find_concat_map) (rule Node.IH)
    with False show ?thesis by (simp del: map_map)
  qed
qed

lemma find_node_replaced:
  "find_node h (setChildNodes h ks t) = map_option (\<lambda>n. Node h (tagName n) ks) (find_node h t)"
  by (simp only: find_node_def find_subtree_replaced)

lemma getElementsByTagName_below:
  "set (getElementsByTagName w el name) \<subseteq> set (below w el)"
  by (auto simp add: getElementsByTagName_def below_def split: option.split)

lemma getDomElements_below:
  "set (getDomElements w el ns ln) \<subseteq> set (below w el)"
  by (simp add: getDomElements_def getElementsByTagNameNS_def Let_def
      getElementsByTagName_below split: option.split)

lemma matched_below: "set (matched w el) \<subseteq> set (below w el)"
  using getDomElements_below [of w el] by (auto simp add: matched_def)

lemma processElement_touch:
  "(\<forall>x. x \<noteq> d \<longrightarrow> elements (processElement w d ti k) x = elements w x) \<and>
   snd ` set (instances (processElement w d ti k)) \<subseteq> snd ` set (instances w) \<union> {d} \<and>
   (fst \<circ> snd) ` set (pending (processElement w d ti k)) \<subseteq>
     (fst \<circ> snd) ` set (pending w) \<union> {d}"
  by (auto simp add: processElement_def processor_def Let_def split: option.split)

lemma forDoms_touch:
  "(\<forall>x. x \<notin> set ds \<longrightarrow> elements (fst (forDoms sync cb k ti ds (w, r))) x = elements w x) \<and>
   snd ` set (instances (fst (forDoms sync cb k ti ds (w, r)))) \<subseteq>
     snd ` set (instances w) \<union> set ds \<and>
   (fst \<circ> snd) ` set (pending (fst (forDoms sync cb k ti ds (w, r)))) \<subseteq>
     (fst \<circ> snd) ` set (pending w) \<union> set ds"
proof (induction ds arbitrary: w r)
  case Nil
  show ?case by simp
next
  case (Cons d ds)
  let ?w1 = "processElement w d ti k"
  let ?r1 = "(onTagDone cb ^^ sync d) (r\<lparr>count := count r + 1\<rparr>)"
  note p = processElement_touch [of d w ti k]
  note ih = Cons.IH [of ?w1 ?r1]
  have s: "forDoms sync cb k ti (d # ds) (w, r) = forDoms sync cb k ti ds (?w1, ?r1)"
    by simp
  have a: "\<forall>x. x \<notin> set (d # ds) \<longrightarrow>
             elements (fst (forDoms sync cb k ti (d # ds) (w, r))) x = elements w x"
  proof (intro allI impI)
    fix x assume "x \<notin> set (d # ds)"
    then have "x \<noteq> d" and "x \<notin> set ds" by simp_all
    with p [THEN conjunct1] ih [THEN conjunct1]
    show "elements (fst (forDoms sync cb k ti (d # ds) (w, r))) x = elements w x"
      unfolding s by simp
  qed
  have b: "snd ` set (instances (fst (forDoms sync cb k ti (d # ds) (w, r)))) \<subseteq>
     snd ` set (instances w) \<union> set (d # ds)"
    using p [THEN conjunct2, THEN conjunct1] ih [THEN conjunct2, THEN conjunct1]
    unfolding s list.set by blast
  have c: "(fst \<circ> snd) ` set (pending (fst (forDoms sync cb k ti (d # ds) (w, r)))) \<subseteq>
     (fst \<circ> snd) ` set (pending w) \<union> set (d # ds)"
    using p [THEN conjunct2, THEN conjunct2] ih [THEN conjunct2, THEN conjunct2]
    unfolding s list.set by blast
  from a b c show ?case by (intro conjI)
qed

lemma below_cong: "document w' = document w \<Longrightarrow> below w' el = below w el"
  by (simp add: below_def)

lemma forEachTag_touch:
  "(\<forall>x. x \<notin> set (below w el) \<longrightarrow>
      elements (fst (forEachTag sync cb k el i ts (w, r))) x = elements w x) \<and>
   snd ` set (instances (fst (forEachTag sync cb k el i ts (w, r)))) \<subseteq>
     snd ` set (instances w) \<union> set (below w el) \<and>
   (fst \<circ> snd) ` set (pending (fst (forEachTag sync cb k el i ts (w, r)))) \<subseteq>
     (fst \<circ> snd) ` set (pending w) \<union> set (below w el)"
proof (induction ts arbitrary: i w r)
  case Nil
  show ?case by simp
next
  case (Cons t ts)
  let ?ti = "defaultXmlns t"
  let ?w1 = "w\<lparr>tagInfos := (tagInfos w)[i := ?ti]\<rparr>"
  let ?ds = "getDomElements ?w1 el (str (xmlns ?ti)) (localName ?ti)"
  let ?wr = "forDoms sync cb k ?ti ?ds (?w1, r)"
  have s: "forEachTag sync cb k el i (t # ts) (w, r) =
        forEachTag sync cb k el (Suc i) ts (fst ?wr, snd ?wr)"
    by (simp add: Let_def)
  have b1: "below ?w1 el = below w el"
    by (rule below_cong) simp
  have b2: "below (fst ?wr) el = below w el"
    by (rule below_cong) (simp add: forDoms_frame)
  have ds: "set ?ds \<subseteq> set (below w el)"
    using getDomElements_below [of ?w1 el] by (simp only: b1)
  note f = forDoms_touch [of ?ds sync cb k ?ti ?w1 r]
  note ih = Cons.IH [of "fst ?wr" "Suc i" "snd ?wr", unfolded b2]
  have e1: "elements ?w1 = elements w" and i1: "instances ?w1 = instances w"
    and p1: "pending ?w1 = pending w"
    by simp_all
  have a: "\<forall>x. x \<notin> set (below w el) \<longrightarrow>
      elements (fst (forEachTag sync cb k el i (t # ts) (w, r))) x = elements w x"
  proof (intro allI impI)
    fix x assume x: "x \<notin> set (below w el)"
    with ds have "x \<notin> set ?ds" by blast
    with x f [THEN conjunct1] ih [THEN conjunct1]
    show "elements (fst (forEachTag sync cb k el i (t # ts) (w, r))) x = elements w x"
      unfolding s e1 by simp
  qed
  have b: "snd ` set (instances (fst (forEachTag sync cb k el i (t # ts) (w, r)))) \<subseteq>
     snd ` set (instances w) \<union> set (below w el)"
    using f [THEN conjunct2, THEN conjunct1] ih [THEN conjunct2, THEN conjunct1] ds
    unfolding s i1 by blast
  have c: "(fst \<circ> snd) ` set (pending (fst (forEachTag sync cb k el i (t # ts) (w, r)))) \<subseteq>
     (fst \<circ> snd) ` set (pending w) \<union> set (below w el)"
    using f [THEN conjunct2, THEN conjunct2] ih [THEN conjunct2, THEN conjunct2] ds
    unfolding s p1 by blast
  from a b c show ?case by (intro conjI)
qed

lemma parse_touch:
  "(\<forall>x. x \<notin> set (below w (root w el)) \<longrightarrow>
      elements (fst (parse sync w el cb)) x = elements w x) \<and>
   snd ` set (instances (fst (parse sync w el cb))) \<subseteq>
     snd ` set (instances w) \<union> set (below w (root w el)) \<and>
   (fst \<circ> snd) ` set (pending (fst (parse sync w el cb))) \<subseteq>
     (fst \<circ> snd) ` set (pending w) \<union> set (below w (root w el))"
proof -
  let ?w0 = "w\<lparr>parses := Suc (parses w)\<rparr>"
  have b: "below ?w0 (root w el) = below w (root w el)"
    by (rule below_cong) simp
  from forEachTag_touch [of ?w0 "root w el" sync cb "OnTagDone (parses w)" 0 "tagInfos w"
      "\<lparr>count = 1, timeout = None, effects = [], logged = []\<rparr>"]
  show ?thesis
    by (simp add: parse_world scan_def b)
qed

section \<open>Claims\<close>

text \<open>
  C1, as stated, fails: nothing in \<open>parse\<close> keeps the counter from reaching zero during
  the scan when a continuation is invoked more than once before \<open>_processElement\<close>
  returns. On the example page, with the handler of element 3 signalling twice at once
  and the handler of element 5 never completing, the counter is at zero and the callback
  and the event have been fired when only element 3 has been visited; the scan ends with
  the counter at 1, and the release of the reserved unit fires both a second time.
\<close>

theorem zero_during_scan:
  "matched likePage (root likePage None) = [3, 5] \<and>
   foldl (visit twiceAndNever (Some 7))
     \<lparr>count = 1, timeout = None, effects = [], logged = []\<rparr>
     (take 1 (matched likePage (root likePage None))) =
     \<lparr>count = 0, timeout = None, effects = [Invoke 7, Fire ''xfbml.render''], logged = []\<rparr> \<and>
   snd (scan twiceAndNever likePage None (Some 7)) =
     \<lparr>count = 1, timeout = None, effects = [Invoke 7, Fire ''xfbml.render''], logged = []\<rparr> \<and>
   snd (parse twiceAndNever likePage None (Some 7)) =
     \<lparr>count = 0, timeout = Some 30000,
      effects = [Invoke 7, Fire ''xfbml.render'', Invoke 7, Fire ''xfbml.render''],
      logged = []\<rparr>"
  by (simp add: page_defs query_defs run_defs visit_def funpow_two)

text \<open>
  C1, amended. For every invocation of \<open>parse\<close>: the counter starts at 1 and the loops
  apply \<open>visit\<close> (increment, then the completions that arrive at once) to the matched
  elements in order; the reserved unit is released by the one call of \<open>onTagDone\<close> that
  follows the scan and the setting of the timer; and a call of \<open>onTagDone\<close> that brings
  the counter to zero invokes the callback (if given) once and then fires the event once.
  Provided that the continuation given to \<open>_processElement\<close> is invoked at most once
  before that call returns, for every visited element: at every point of the scan (after
  any number \<open>n\<close> of visited elements) the counter is at least 1 and neither the callback
  nor the event has been fired, so zero is never observed before all matched elements
  are accounted for; when the loops end the counter is 1 plus the number of outstanding
  handlers; and whatever arrives afterwards, the callback followed by the event has been
  fired exactly once when the counter has reached zero, and nothing has been fired while
  it is positive.
\<close>

theorem reserved_unit_protocol:
  "snd (scan sync w el cb) =
     foldl (visit sync cb) \<lparr>count = 1, timeout = None, effects = [], logged = []\<rparr>
       (matched w (root w el)) \<and>
   snd (parse sync w el cb) =
     onTagDone cb ((snd (scan sync w el cb))\<lparr>timeout := Some renderTimeout\<rparr>) \<and>
   effects (onTagDone cb r) = (if count r = 1 then effects r @ notify cb else effects r) \<and>
   ((\<forall>d. sync d \<le> 1) \<longrightarrow>
      (\<forall>n. 1 \<le> count (foldl (visit sync cb)
                \<lparr>count = 1, timeout = None, effects = [], logged = []\<rparr>
                (take n (matched w (root w el)))) \<and>
           effects (foldl (visit sync cb)
                \<lparr>count = 1, timeout = None, effects = [], logged = []\<rparr>
                (take n (matched w (root w el)))) = []) \<and>
      snd (scan sync w el cb) =
        \<lparr>count = 1 + int (length (outstanding sync w (root w el))), timeout = None,
         effects = [], logged = []\<rparr> \<and>
      (\<forall>evs. effects (deliver cb (snd (parse sync w el cb)) evs) =
         (if count (deliver cb (snd (parse sync w el cb)) evs) \<le> 0 then notify cb else [])))"
proof -
  have v: "visit sync cb = (\<lambda>r d. (onTagDone cb ^^ sync d) (r\<lparr>count := count r + 1\<rparr>))"
    by (intro ext) (simp add: visit_def)
  have a: "snd (scan sync w el cb) =
           foldl (visit sync cb) \<lparr>count = 1, timeout = None, effects = [], logged = []\<rparr>
             (matched w (root w el))"
    by (simp only: v scan_run)
  have b: "snd (parse sync w el cb) =
           onTagDone cb ((snd (scan sync w el cb))\<lparr>timeout := Some renderTimeout\<rparr>)"
    by (cases "scan sync w el cb") (simp add: parse_def)
  have c: "effects (onTagDone cb r) = (if count r = 1 then effects r @ notify cb else effects r)"
    by (rule onTagDone_effects)
  have d: "(\<forall>d. sync d \<le> 1) \<longrightarrow>
      (\<forall>n. 1 \<le> count (foldl (visit sync cb)
                \<lparr>count = 1, timeout = None, effects = [], logged = []\<rparr>
                (take n (matched w (root w el)))) \<and>
           effects (foldl (visit sync cb)
                \<lparr>count = 1, timeout = None, effects = [], logged = []\<rparr>
                (take n (matched w (root w el)))) = []) \<and>
      snd (scan sync w el cb) =
        \<lparr>count = 1 + int (length (outstanding sync w (root w el))), timeout = None,
         effects = [], logged = []\<rparr> \<and>
      (\<forall>evs. effects (deliver cb (snd (parse sync w el cb)) evs) =
         (if count (deliver cb (snd (parse sync w el cb)) evs) \<le> 0 then notify cb else []))"
  proof
    assume contract: "\<forall>d. sync d \<le> 1"
    have d1: "\<forall>n. 1 \<le> count (foldl (visit sync cb)
                \<lparr>count = 1, timeout = None, effects = [], logged = []\<rparr>
                (take n (matched w (root w el)))) \<and>
           effects (foldl (visit sync cb)
                \<lparr>count = 1, timeout = None, effects = [], logged = []\<rparr>
                (take n (matched w (root w el)))) = []"
      by (simp add: visits_contract [OF contract])
    have d2: "snd (scan sync w el cb) =
        \<lparr>count = 1 + int (length (outstanding sync w (root w el))), timeout = None,
         effects = [], logged = []\<rparr>"
      by (rule scan_contract [OF contract])
    have d3: "\<forall>evs. effects (deliver cb (snd (parse sync w el cb)) evs) =
         (if count (deliver cb (snd (parse sync w el cb)) evs) \<le> 0 then notify cb else [])"
      by (intro allI deliver_effects parse_effects [OF contract])
    from d1 d2 d3 show "(\<forall>n. 1 \<le> count (foldl (visit sync cb)
                \<lparr>count = 1, timeout = None, effects = [], logged = []\<rparr>
                (take n (matched w (root w el)))) \<and>
           effects (foldl (visit sync cb)
                \<lparr>count = 1, timeout = None, effects = [], logged = []\<rparr>
                (take n (matched w (root w el)))) = []) \<and>
      snd (scan sync w el cb) =
        \<lparr>count = 1 + int (length (outstanding sync w (root w el))), timeout = None,
         effects = [], logged = []\<rparr> \<and>
      (\<forall>evs. effects (deliver cb (snd (parse sync w el cb)) evs) =
         (if count (deliver cb (snd (parse sync w el cb)) evs) \<le> 0 then notify cb else []))"
      by (intro conjI)
  qed
  from a b c d show ?thesis by (intro conjI)
qed

text \<open>
  The contract holds for the environment \<open>firstAtOnce\<close>; on the example page the scan ends
  with the counter at 2, and the one outstanding completion fires the callback and the event.
\<close>

theorem reserved_unit_protocol_witness:
  "snd (scan firstAtOnce likePage None (Some 7)) =
     \<lparr>count = 2, timeout = None, effects = [], logged = []\<rparr> \<and>
   effects (deliver (Some 7) (snd (parse firstAtOnce likePage None (Some 7))) [Render 5]) =
     [Invoke 7, Fire ''xfbml.render'']"
proof -
  have h: "\<forall>d. firstAtOnce d \<le> 1"
    by (simp add: firstAtOnce_def)
  note th = reserved_unit_protocol [of firstAtOnce likePage None "Some 7", THEN conjunct2,
      THEN conjunct2, THEN conjunct2, THEN mp, OF h]
  have o: "outstanding firstAtOnce likePage (root likePage None) = [5]"
    by (simp add: page_defs query_defs)
  have c: "count (deliver (Some 7) (snd (parse firstAtOnce likePage None (Some 7))) [Render 5]) = 0"
    by (simp add: deliver_count parse_contract [OF h] o)
  from th [THEN conjunct2, THEN conjunct1]
  have 1: "snd (scan firstAtOnce likePage None (Some 7)) =
     \<lparr>count = 2, timeout = None, effects = [], logged = []\<rparr>"
    by (simp add: o)
  from th [THEN conjunct2, THEN conjunct2, THEN spec, of "[Render 5]"]
  have 2: "effects (deliver (Some 7) (snd (parse firstAtOnce likePage None (Some 7))) [Render 5]) =
     [Invoke 7, Fire ''xfbml.render'']"
    by (simp add: c notify_def)
  from 1 2 show ?thesis by (intro conjI)
qed

text \<open>
  C2. Let the subtree hold N matching elements, over all descriptors of the registry, and
  let every handler signal completion once, either before \<open>_processElement\<close> returns or
  later. Whatever the order in which the later signals arrive (any arrangement \<open>evs\<close> of
  the render events of the outstanding elements), the callback is invoked exactly once and
  the event is fired exactly once, the counter ends at zero, nothing has been invoked
  after only a part of the signals, and the timer that expires afterwards logs nothing.
  N is the number of later signals plus the number of signals given at once.
\<close>

theorem callback_after_all_completions:
  assumes contract: "\<forall>d. sync d \<le> 1"
    and order: "mset evs = mset (map Render (outstanding sync w (root w el)))"
  shows "effects (deliver (Some f) (snd (parse sync w el (Some f))) evs)
           = [Invoke f, Fire ''xfbml.render''] \<and>
         count (deliver (Some f) (snd (parse sync w el (Some f))) evs) = 0 \<and>
         (\<forall>n<length evs.
            effects (deliver (Some f) (snd (parse sync w el (Some f))) (take n evs)) = []) \<and>
         logged (deliver (Some f) (snd (parse sync w el (Some f))) (evs @ [Expire])) = [] \<and>
         length (matched w (root w el)) = length evs + sum_list (map sync (matched w (root w el)))"
proof -
  let ?r = "snd (parse sync w el (Some f))"
  let ?out = "outstanding sync w (root w el)"
  note ev = renders_of_mset [OF order]
  have c0: "count ?r = int (length evs)" and l0: "logged ?r = []"
    by (simp_all add: parse_contract [OF contract] ev(2))
  have inv: "effects ?r = (if count ?r \<le> 0 then notify (Some f) else [])"
    by (rule parse_effects [OF contract])
  have c: "count (deliver (Some f) ?r evs) = 0"
    by (simp add: deliver_count ev(3) c0)
  have e: "effects (deliver (Some f) ?r evs) = [Invoke f, Fire ''xfbml.render'']"
    using deliver_effects [OF inv, of evs]
    by (simp add: c notify_def)
  have p: "\<forall>n<length evs. effects (deliver (Some f) ?r (take n evs)) = []"
  proof (intro allI impI)
    fix n assume n: "n < length evs"
    have "Expire \<notin> set (take n evs)"
      using ev(1) by (auto dest: in_set_takeD)
    then have "filter (\<lambda>e. e \<noteq> Expire) (take n evs) = take n evs"
      by (auto simp add: filter_id_conv)
    then have "count (deliver (Some f) ?r (take n evs)) = int (length evs) - int n"
      using n by (simp add: deliver_count c0)
    with n show "effects (deliver (Some f) ?r (take n evs)) = []"
      using deliver_effects [OF inv, of "take n evs"]
      by simp
  qed
  have t: "logged (deliver (Some f) ?r (evs @ [Expire])) = []"
    using deliver_renders [OF ev(1), of "Some f" ?r]
    by (simp add: deliver_append deliver_Cons deliver_Nil onTimeout_done c l0)
  have split: "\<And>ds. length ds = length (filter (\<lambda>d. sync d = 0) ds) + sum_list (map sync ds)"
  proof -
    fix ds show "length ds = length (filter (\<lambda>d. sync d = 0) ds) + sum_list (map sync ds)"
    proof (induction ds)
      case Nil
      show ?case by simp
    next
      case (Cons d ds)
      from contract have "sync d \<le> 1" by simp
      then have "sync d = 0 \<or> sync d = Suc 0" by auto
      with Cons show ?case by auto
    qed
  qed
  have s: "length (matched w (root w el)) = length evs + sum_list (map sync (matched w (root w el)))"
    using split [of "matched w (root w el)"] by (simp only: ev(2) outstanding_def)
  from e c p t s show ?thesis by (intro conjI)
qed

theorem callback_after_all_completions_witness:
  "mset [Render 5, Render 3] = mset (map Render (outstanding later likePage (root likePage None))) \<and>
   effects (deliver (Some 7) (snd (parse later likePage None (Some 7))) [Render 5, Render 3])
     = [Invoke 7, Fire ''xfbml.render''] \<and>
   count (deliver (Some 7) (snd (parse later likePage None (Some 7))) [Render 5, Render 3]) = 0 \<and>
   effects (deliver (Some 7) (snd (parse later likePage None (Some 7))) [Render 5]) = []"
proof -
  have h1: "\<forall>d. later d \<le> 1"
    by (simp add: later_def)
  have h2: "mset [Render 5, Render 3]
              = mset (map Render (outstanding later likePage (root likePage None)))"
    by (simp add: page_defs query_defs)
  note th = callback_after_all_completions [OF h1 h2, of 7]
  have "(1::nat) < length [Render 5, Render 3 :: event]"
    by simp
  with th [THEN conjunct2, THEN conjunct2, THEN conjunct1]
  have "effects (deliver (Some 7) (snd (parse later likePage None (Some 7)))
        (take 1 [Render 5, Render 3])) = []"
    by blast
  then have one: "effects (deliver (Some 7) (snd (parse later likePage None (Some 7))) [Render 5]) = []"
    by simp
  from th [THEN conjunct1] th [THEN conjunct2, THEN conjunct1] h2 one show ?thesis
    by (intro conjI)
qed

text \<open>
  C3 does not hold of the code. The class of \<open>fb:like\<close> is not loaded yet and \<open>parse()\<close> is
  called twice before the loader answers: \<open>_processElement\<close> finds no \<open>_element\<close> on
  element 3 either time and hands two continuations for it to the loader. When the loader
  runs them, each one instantiates the class on element 3 without looking at \<open>_element\<close>
  again: two instances are created for the same element, the second replacing the first
  in \<open>_element\<close>.
\<close>

theorem two_passes_instantiate_twice:
  "pending (fst (parse later (fst (parse later lazyPage None (Some 7))) None (Some 8))) =
     [(''fb.xfbml.like'', 3, defaultXmlns likeTag, OnTagDone 0),
      (''fb.xfbml.like'', 5, defaultXmlns likeTag, OnTagDone 0),
      (''fb.xfbml.like'', 3, defaultXmlns likeTag, OnTagDone 1),
      (''fb.xfbml.like'', 5, defaultXmlns likeTag, OnTagDone 1)] \<and>
   instances (loaded 0 (loaded 0 (loaded 0 (loaded 0
       (fst (parse later (fst (parse later lazyPage None (Some 7))) None (Some 8))))))) =
     [(''FB.XFBML.Like'', 3), (''FB.XFBML.Like'', 5),
      (''FB.XFBML.Like'', 3), (''FB.XFBML.Like'', 5)] \<and>
   elements (loaded 0 (loaded 0 (loaded 0 (loaded 0
       (fst (parse later (fst (parse later lazyPage None (Some 7))) None (Some 8))))))) 3 = Some 2"
  by (simp add: page_defs query_defs run_defs)




text \<open>
  C5. When the subtree holds no element of any registered tag, \<open>parse(root, cb)\<close> invokes
  \<open>cb\<close> exactly once and fires the global event exactly once before it returns: the run
  that \<open>parse\<close> leaves behind has the counter at zero and exactly these two effects, in
  this order, and the timer that expires later changes neither and logs nothing.
\<close>

theorem parse_without_matches:
  assumes "matched w (root w el) = []"
  shows "snd (parse sync w el (Some f)) =
           \<lparr>count = 0, timeout = Some renderTimeout,
            effects = [Invoke f, Fire ''xfbml.render''], logged = []\<rparr> \<and>
         deliver (Some f) (snd (parse sync w el (Some f))) [Expire] =
           \<lparr>count = 0, timeout = None,
            effects = [Invoke f, Fire ''xfbml.render''], logged = []\<rparr>"
proof -
  obtain w1 r1 where s: "scan sync w el (Some f) = (w1, r1)"
    by (cases "scan sync w el (Some f)")
  with scan_run [of sync w el "Some f"] assms
  have r1: "r1 = \<lparr>count = 1, timeout = None, effects = [], logged = []\<rparr>" by simp
  have p: "snd (parse sync w el (Some f)) =
           \<lparr>count = 0, timeout = Some renderTimeout,
            effects = [Invoke f, Fire ''xfbml.render''], logged = []\<rparr>"
    by (simp add: parse_def s r1 onTagDone_def Let_def)
  show ?thesis
    by (simp add: p deliver_def onTimeout_def)
qed

theorem parse_without_matches_witness:
  "matched plainPage (root plainPage None) = [] \<and>
   snd (parse firstAtOnce plainPage None (Some 7)) =
     \<lparr>count = 0, timeout = Some renderTimeout,
      effects = [Invoke 7, Fire ''xfbml.render''], logged = []\<rparr>"
proof -
  have h: "matched plainPage (root plainPage None) = []"
    by (simp add: page_defs query_defs)
  from parse_without_matches [OF h, of firstAtOnce 7] h show ?thesis
    by simp
qed

text \<open>
  C6. The registry holds the one descriptor \<open>{localName: 'like', className:
  'FB.XFBML.Like'}\<close> without namespace; the body holds two \<open>fb:like\<close> elements (3 and 5)
  and an unrelated element (4); the handlers complete after \<open>parse\<close> has returned. Then
  \<open>parse\<close> visits the elements 3 and 5 only, instantiates exactly two handlers, subscribes
  to each and calls \<open>process()\<close> on each; the counter is 3 when the scan ends and 2 when
  \<open>parse\<close> returns; it drops to 1 and 0 as the two handlers complete, in either order,
  and the callback is invoked once, followed by the event.
\<close>

theorem two_likes_scenario:
  "matched likePage (root likePage None) = [3, 5] \<and>
   instances (fst (parse later likePage None (Some 7))) =
     [(''FB.XFBML.Like'', 3), (''FB.XFBML.Like'', 5)] \<and>
   calls (fst (parse later likePage None (Some 7))) =
     [Subscribe 0 ''render'' (OnTagDone 0), Process 0,
      Subscribe 1 ''render'' (OnTagDone 0), Process 1] \<and>
   snd (scan later likePage None (Some 7)) =
     \<lparr>count = 3, timeout = None, effects = [], logged = []\<rparr> \<and>
   snd (parse later likePage None (Some 7)) =
     \<lparr>count = 2, timeout = Some 30000, effects = [], logged = []\<rparr> \<and>
   deliver (Some 7) (snd (parse later likePage None (Some 7))) [Render 3] =
     \<lparr>count = 1, timeout = Some 30000, effects = [], logged = []\<rparr> \<and>
   deliver (Some 7) (snd (parse later likePage None (Some 7))) [Render 3, Render 5] =
     \<lparr>count = 0, timeout = Some 30000, effects = [Invoke 7, Fire ''xfbml.render''],
      logged = []\<rparr> \<and>
   deliver (Some 7) (snd (parse later likePage None (Some 7))) [Render 5, Render 3] =
     \<lparr>count = 0, timeout = Some 30000, effects = [Invoke 7, Fire ''xfbml.render''],
      logged = []\<rparr>"
  by (simp add: page_defs query_defs run_defs)

text \<open>
  C7, as stated, fails: the loop of \<open>parse\<close> assigns \<open>'fb'\<close> to the \<open>xmlns\<close> property of a
  registered descriptor that has none. The descriptor of the example page is changed by a
  run of \<open>parse\<close>.
\<close>

theorem parse_defaults_namespace:
  "tagInfos likePage =
     [\<lparr>xmlns = None, localName = ''like'', className = ''FB.XFBML.Like''\<rparr>] \<and>
   tagInfos (fst (parse later likePage None None)) =
     [\<lparr>xmlns = Some ''fb'', localName = ''like'', className = ''FB.XFBML.Like''\<rparr>] \<and>
   tagInfos (fst (parse later likePage None None)) \<noteq> tagInfos likePage"
  by (simp add: parse_world scan_tagInfos defaultXmlns_def falsy_def page_defs)

text \<open>
  C7, amended. A run of \<open>parse\<close> keeps the number and order of the registered
  descriptors and the \<open>localName\<close> and \<open>className\<close> of each; it keeps the namespace of a
  descriptor that has one and sets a missing or empty namespace to \<open>'fb'\<close>. \<open>registerTag\<close>
  appends, and neither the binding of an element nor a continuation of the loader touches
  the registry.
\<close>

theorem registry_fields_kept:
  "map localName (tagInfos (fst (parse sync w el cb))) = map localName (tagInfos w) \<and>
   map className (tagInfos (fst (parse sync w el cb))) = map className (tagInfos w) \<and>
   map xmlns (tagInfos (fst (parse sync w el cb))) =
     map (\<lambda>t. if falsy (xmlns t) then Some ''fb'' else xmlns t) (tagInfos w) \<and>
   length (tagInfos (fst (parse sync w el cb))) = length (tagInfos w) \<and>
   tagInfos (registerTag w ti) = tagInfos w @ [ti] \<and>
   tagInfos (processElement w d ti k) = tagInfos w \<and>
   tagInfos (loaded n w) = tagInfos w"
proof -
  have "tagInfos (loaded n w) = tagInfos w"
    by (simp add: loaded_def processor_def Let_def split: prod.split)
  then show ?thesis
    by (simp add: parse_world scan_tagInfos defaultXmlns_def registerTag_def
        processElement_frame cong: map_cong)
qed

text \<open>
  C8, as stated, fails: without a root argument the scan starts at \<open>document.body\<close>, not
  at the document. On a page with one \<open>fb:like\<close> element in the head and one in the body,
  \<open>parse()\<close> binds the element of the body only, while a scan of the whole document binds
  both.
\<close>

theorem default_root_misses_head:
  "root headPage None = 2 \<and> nid (document headPage) = 0 \<and>
   matched headPage (root headPage None) = [3] \<and>
   matched headPage (nid (document headPage)) = [6, 3] \<and>
   instances (fst (parse later headPage None None)) = [(''FB.XFBML.Like'', 3)] \<and>
   instances (fst (parse later headPage (Some (nid (document headPage))) None)) =
     [(''FB.XFBML.Like'', 6), (''FB.XFBML.Like'', 3)]"
  by (simp add: page_defs query_defs run_defs)

text \<open>
  C8, amended. When \<open>parse\<close> is called without a root argument, the scan root defaults to
  the body of the document: \<open>parse()\<close> is \<open>parse(document.body)\<close>. The elements that the
  loops visit are elements below the body; an element that is not below the body is not
  visited, its \<open>_element\<close> property is left as it was, and no handler is instantiated and
  no continuation is handed to the loader for it.
\<close>

theorem default_root_is_body:
  "root w None = body w \<and> root w (Some d) = d \<and>
   parse sync w None cb = parse sync w (Some (body w)) cb \<and>
   matched w (root w None) = matched w (body w) \<and>
   set (matched w (body w)) \<subseteq> set (below w (body w)) \<and>
   (\<forall>x. x \<notin> set (below w (body w)) \<longrightarrow>
      x \<notin> set (matched w (root w None)) \<and>
      elements (fst (parse sync w None cb)) x = elements w x \<and>
      (x \<in> snd ` set (instances (fst (parse sync w None cb))) \<longrightarrow> x \<in> snd ` set (instances w)) \<and>
      (x \<in> (fst \<circ> snd) ` set (pending (fst (parse sync w None cb)))
         \<longrightarrow> x \<in> (fst \<circ> snd) ` set (pending w)))"
proof -
  have r: "root w None = body w"
    by (simp add: root_def)
  have p: "parse sync w None cb = parse sync w (Some (body w)) cb"
    by (simp add: root_def parse_def scan_def)
  note t = parse_touch [of w None sync cb, unfolded r]
  note m = matched_below [of w "body w"]
  have "\<forall>x. x \<notin> set (below w (body w)) \<longrightarrow>
      x \<notin> set (matched w (root w None)) \<and>
      elements (fst (parse sync w None cb)) x = elements w x \<and>
      (x \<in> snd ` set (instances (fst (parse sync w None cb))) \<longrightarrow> x \<in> snd ` set (instances w)) \<and>
      (x \<in> (fst \<circ> snd) ` set (pending (fst (parse sync w None cb)))
         \<longrightarrow> x \<in> (fst \<circ> snd) ` set (pending w))"
    using t m unfolding r by blast
  with r p m show ?thesis
    by (simp add: root_def)
qed

text \<open>
  On the page with an \<open>fb:like\<close> element in the head: element 6 is not below the body,
  is not visited and gets no handler.
\<close>

theorem default_root_is_body_witness:
  "6 \<notin> set (below headPage (body headPage)) \<and>
   6 \<notin> set (matched headPage (root headPage None)) \<and>
   elements (fst (parse later headPage None None)) 6 = elements headPage 6 \<and>
   6 \<notin> snd ` set (instances (fst (parse later headPage None None)))"
proof -
  have h: "6 \<notin> set (below headPage (body headPage))"
    by (simp add: below_def page_defs query_defs)
  have i: "6 \<notin> snd ` set (instances headPage)"
    by (simp add: page_defs)
  note th = default_root_is_body [of headPage 0 later None, THEN conjunct2, THEN conjunct2,
      THEN conjunct2, THEN conjunct2, THEN conjunct2, THEN spec, of 6, THEN mp, OF h]
  from th i have "6 \<notin> snd ` set (instances (fst (parse later headPage None None)))"
    by blast
  with th h show ?thesis
    by blast
qed

text \<open>
  C9. For every element, markup and optional callback, \<open>set(element, markup, cb)\<close> is
  \<open>parse(element, cb)\<close> on the page in which the content of the element has been replaced
  by the markup: the document after the assignment is the old one with the children of
  the element replaced by what the browser builds from the markup (so the element, when it
  is in the document, has exactly these children), and the run of \<open>parse\<close> leaves this
  content in place.
\<close>

theorem set_is_parse_on_new_content:
  "set_markup html sync w d markup cb = parse sync (setInnerHTML html w d markup) (Some d) cb \<and>
   document (setInnerHTML html w d markup) = setChildNodes d (html markup) (document w) \<and>
   map_option childNodes (find_node d (document (setInnerHTML html w d markup))) =
     map_option (\<lambda>n. html markup) (find_node d (document w)) \<and>
   document (fst (set_markup html sync w d markup cb)) = document (setInnerHTML html w d markup)"
proof -
  have "map_option childNodes (find_node d (setChildNodes d (html markup) (document w))) =
     map_option (\<lambda>n. html markup) (find_node d (document w))"
    by (simp add: find_node_replaced option.map_comp comp_def)
  then show ?thesis
    by (simp add: set_markup_def setInnerHTML_def parse_world scan_document)
qed

text \<open>
  C10, as stated, fails: when completion signals in excess arrive during the scan, the
  counter reaches zero, is incremented again for the next element and reaches zero again.
  On the example page, with the handler of element 3 signalling twice and the handler of
  element 5 once before \<open>_processElement\<close> returns, the callback and the event are fired
  twice within the one run (and the final \<open>onTagDone\<close> leaves the counter at -1).
\<close>

theorem callback_fires_twice:
  "effects (snd (parse twiceAtOnce likePage None (Some 7))) =
     [Invoke 7, Fire ''xfbml.render'', Invoke 7, Fire ''xfbml.render''] \<and>
   count (snd (parse twiceAtOnce likePage None (Some 7))) = - 1"
  by (simp add: page_defs query_defs run_defs funpow_two)

text \<open>
  C10, amended. If no signal in excess arrives during the scan (at most one per visited
  element before \<open>_processElement\<close> returns), then after \<open>parse\<close> has returned the
  callback and the event are fired at most once, however many completion signals are
  delivered: each signal decrements the counter, also below zero, and the completion
  actions have been performed exactly once as soon as the signals are at least as many as
  the outstanding handlers.
\<close>

theorem completion_once_after_scan:
  assumes contract: "\<forall>d. sync d \<le> 1"
  shows "count (deliver cb (snd (parse sync w el cb)) evs) =
           int (length (outstanding sync w (root w el)))
             - int (length (filter (\<lambda>e. e \<noteq> Expire) evs)) \<and>
         effects (deliver cb (snd (parse sync w el cb)) evs) =
           (if length (outstanding sync w (root w el)) \<le> length (filter (\<lambda>e. e \<noteq> Expire) evs)
            then notify cb else [])"
proof -
  have c: "count (deliver cb (snd (parse sync w el cb)) evs) =
           int (length (outstanding sync w (root w el)))
             - int (length (filter (\<lambda>e. e \<noteq> Expire) evs))"
    by (simp add: deliver_count parse_contract [OF contract])
  have "effects (deliver cb (snd (parse sync w el cb)) evs) =
          (if count (deliver cb (snd (parse sync w el cb)) evs) \<le> 0 then notify cb else [])"
    by (intro deliver_effects parse_effects [OF contract])
  with c show ?thesis by simp
qed

text \<open>
  Five signals for two outstanding handlers: the counter ends at -3, the callback and the
  event have been fired once.
\<close>

theorem completion_once_after_scan_witness:
  "count (deliver (Some 7) (snd (parse later likePage None (Some 7)))
      [Render 3, Render 5, Render 3, Expire, Render 5, Render 3]) = - 3 \<and>
   effects (deliver (Some 7) (snd (parse later likePage None (Some 7)))
      [Render 3, Render 5, Render 3, Expire, Render 5, Render 3]) = [Invoke 7, Fire ''xfbml.render'']"
proof -
  have h: "\<forall>d. later d \<le> 1"
    by (simp add: later_def)
  have o: "outstanding later likePage (root likePage None) = [3, 5]"
    by (simp add: page_defs query_defs)
  from completion_once_after_scan [OF h, of "Some 7" likePage None
      "[Render 3, Render 5, Render 3, Expire, Render 5, Render 3]"]
  show ?thesis
    by (simp add: o notify_def)
qed

end
